theory Spec2Isabelle
  imports Complex_Main
begin

section \<open>Data model\<close>

text \<open>
  The servo controller of \<^verbatim>\<open>ssc32u_controllers/src/servo_controller.cpp\<close>.
  A \<^verbatim>\<open>double\<close> is modelled as a real number, so the arithmetic of the model is
  exact; an \<^verbatim>\<open>int\<close> is modelled as an integer, and the places where a
  32-bit value is converted are written out.

  The struct \<^verbatim>\<open>Joint\<close> is declared in the header of the class; its fields are the
  ones that \<^verbatim>\<open>process_parameters\<close> fills, with the types the spec gives them.
\<close>

record Joint =
  name :: string
  channel :: int
  min_angle :: real
  max_angle :: real
  offset_angle :: real
  default_angle :: real
  initialize :: bool
  invert :: bool

text \<open>
  \<^verbatim>\<open>joints_map_\<close> is a \<^verbatim>\<open>std::map\<close> from joint name to joint. It is modelled by
  the list of its entries in iteration order; \<open>map_of\<close> is the lookup. The keys
  of a \<^verbatim>\<open>std::map\<close> are distinct, and \<^verbatim>\<open>process_parameters\<close> stores every joint
  under its own name.
\<close>

type_synonym joints_map = "(string \<times> Joint) list"

text \<open>The fields of \<^verbatim>\<open>trajectory_msgs::msg::JointTrajectory\<close> that the callback reads.\<close>

record JointTrajectoryPoint =
  positions :: "real list"
  velocities :: "real list"

record JointTrajectory =
  joint_names :: "string list"
  points :: "JointTrajectoryPoint list"

text \<open>
  Modelled from the spec: the message types of \<^verbatim>\<open>ssc32u_msgs\<close> are declared outside
  the source file. The spec gives a servo command as a channel (int), a pulse
  width (int) and a speed (double); a discrete output as a channel and an output
  level; a pulse-width query result as a list of measured pulse widths. A message
  that is default-constructed has all its fields zero.
\<close>

record ServoCommand =
  cmd_channel :: int
  pw :: int
  speed :: real

definition ServoCommand_default :: ServoCommand where
  "ServoCommand_default = \<lparr>cmd_channel = 0, pw = 0, speed = 0\<rparr>"

record DiscreteOutput =
  out_channel :: int
  out_output :: int

text \<open>The two fields of \<^verbatim>\<open>sensor_msgs::msg::JointState\<close> that are filled, as parallel lists.\<close>

record JointState =
  state_position :: "real list"
  state_name :: "string list"

section \<open>Faults and logged errors\<close>

text \<open>
  A fault is a step of the source that has no defined result: an unchecked
  \<^verbatim>\<open>operator[]\<close> past the end of a vector, or a conversion of a
  \<^verbatim>\<open>double\<close> to \<^verbatim>\<open>unsigned int\<close> whose truncated value the target type cannot
  represent.
\<close>

datatype fault =
  PositionIndexOutOfRange
  | JointNameIndexOutOfRange
  | PulseWidthIndexOutOfRange
  | ConversionUndefined

text \<open>
  The two \<^verbatim>\<open>RCLCPP_ERROR\<close> lines of the command callback, with their arguments:
  "The given position [%f] for joint [%s] is invalid" and "Joint [%s] does not exist".
\<close>

datatype log_error =
  InvalidPosition real string
  | JointDoesNotExist string

section \<open>Pulse-width arithmetic\<close>

definition clamp_pulse_width :: "int \<Rightarrow> int" where
  "clamp_pulse_width pulse_width =
     (if pulse_width < 500 then 500
      else if pulse_width > 2500 then 2500
      else pulse_width)"

text \<open>
  \<^verbatim>\<open>3000 - pulse_width\<close> on \<^verbatim>\<open>int\<close>; every caller passes a value above 0, where
  the subtraction cannot overflow.
\<close>

definition invert_pulse_width :: "int \<Rightarrow> int" where
  "invert_pulse_width pulse_width = 3000 - pulse_width"

definition scale :: real where
  "scale = 1 * 2000 / pi"

text \<open>
  The cast \<^verbatim>\<open>(unsigned int)x\<close> of a \<^verbatim>\<open>double\<close>: the fractional part is
  discarded (truncation towards zero). The language defines the result only if
  the truncated value lies in \<open>[0, 2^32)\<close>; outside of it the behaviour is
  undefined, and processors differ (some wrap around, some saturate). The
  undefined case is the result \<open>None\<close>.
\<close>

definition to_unsigned_int :: "real \<Rightarrow> int option" where
  "to_unsigned_int x =
     (let t = (if x < 0 then \<lceil>x\<rceil> else \<lfloor>x\<rfloor>)
      in if 0 \<le> t \<and> t < 4294967296 then Some t else None)"

text \<open>
  An \<^verbatim>\<open>unsigned int\<close> stored in the field \<^verbatim>\<open>pw\<close>, an \<^verbatim>\<open>int\<close> as the spec
  gives it, and passed on to the \<^verbatim>\<open>int\<close> parameter of \<^verbatim>\<open>clamp_pulse_width\<close>:
  values from \<open>2^31\<close> on come out negative.
\<close>

definition unsigned_to_int :: "int \<Rightarrow> int" where
  "unsigned_to_int u = (if u < 2147483648 then u else u - 4294967296)"

text \<open>
  Line 93, the right-hand side of the first assignment to \<^verbatim>\<open>command.pw\<close>:
  \<^verbatim>\<open>(unsigned int)(scale * (angle - joint.offset_angle) + 1500 + 0.5)\<close>.
\<close>

definition raw_pulse_width :: "Joint \<Rightarrow> real \<Rightarrow> int option" where
  "raw_pulse_width joint angle =
     to_unsigned_int (scale * (angle - offset_angle joint) + 1500 + 0.5)"

text \<open>
  Line 159: \<^verbatim>\<open>((double)pw - 1500.0) / scale + joint_list[i].offset_angle\<close>.
\<close>

definition pw_to_angle :: "Joint \<Rightarrow> int \<Rightarrow> real" where
  "pw_to_angle joint p = (real_of_int p - 1500) / scale + offset_angle joint"

section \<open>Command translation: \<^verbatim>\<open>joint_command_callback\<close>\<close>

text \<open>
  The state of the two loops: the commands pushed to \<^verbatim>\<open>command_msg\<close>, the flag
  \<^verbatim>\<open>invalid\<close>, and the errors logged so far.
\<close>

record cb_state =
  commands :: "ServoCommand list"
  invalid :: bool
  errors :: "log_error list"

text \<open>The body of the inner loop, lines 82 to 113, for point \<open>i\<close> and joint name \<open>j\<close>.\<close>

definition loop_body ::
  "joints_map \<Rightarrow> JointTrajectory \<Rightarrow> nat \<Rightarrow> nat \<Rightarrow> cb_state \<Rightarrow> fault + cb_state" where
  "loop_body reg msg i j st =
     (let command = ServoCommand_default in
      case map_of reg (joint_names msg ! j) of
        Some joint \<Rightarrow>
          if j < length (positions (points msg ! i)) then
            let angle = positions (points msg ! i) ! j in
            if angle \<ge> min_angle joint \<and> angle \<le> max_angle joint then
              case raw_pulse_width joint angle of
                None \<Rightarrow> Inl ConversionUndefined
              | Some u \<Rightarrow>
                  let command = command\<lparr>cmd_channel := channel joint\<rparr>;
                      command = command\<lparr>pw := unsigned_to_int u\<rparr>;
                      command = command\<lparr>pw := clamp_pulse_width (pw command)\<rparr>;
                      command = (if invert joint
                                 then command\<lparr>pw := invert_pulse_width (pw command)\<rparr>
                                 else command);
                      command = (if length (velocities (points msg ! i)) > j
                                    \<and> velocities (points msg ! i) ! j > 0
                                 then command\<lparr>speed := scale * (velocities (points msg ! i) ! j)\<rparr>
                                 else command)
                  in Inr (st\<lparr>commands := commands st @ [command]\<rparr>)
            else
              Inr (st\<lparr>commands := commands st @ [command], invalid := True,
                      errors := errors st @ [InvalidPosition angle (name joint)]\<rparr>)
          else Inl PositionIndexOutOfRange
      | None \<Rightarrow>
          if i < length (joint_names msg) then
            Inr (st\<lparr>commands := commands st @ [command], invalid := True,
                    errors := errors st @ [JointDoesNotExist (joint_names msg ! i)]\<rparr>)
          else Inl JointNameIndexOutOfRange)"

text \<open>The inner loop, line 81: \<^verbatim>\<open>for (j = 0; j < joint_names.size() && !invalid; j++)\<close>.\<close>

function inner_loop ::
  "joints_map \<Rightarrow> JointTrajectory \<Rightarrow> nat \<Rightarrow> nat \<Rightarrow> cb_state \<Rightarrow> fault + cb_state" where
  "inner_loop reg msg i j st =
     (if j < length (joint_names msg) \<and> \<not> invalid st then
        case loop_body reg msg i j st of
          Inl f \<Rightarrow> Inl f
        | Inr st' \<Rightarrow> inner_loop reg msg i (j + 1) st'
      else Inr st)"
  by pat_completeness auto
termination
  by (relation "measure (\<lambda>(reg, msg, i, j, st). length (joint_names msg) - j)") auto

declare inner_loop.simps [simp del]

text \<open>The outer loop, line 80: \<^verbatim>\<open>for (i = 0; i < points.size(); i++)\<close>.\<close>

function outer_loop ::
  "joints_map \<Rightarrow> JointTrajectory \<Rightarrow> nat \<Rightarrow> cb_state \<Rightarrow> fault + cb_state" where
  "outer_loop reg msg i st =
     (if i < length (points msg) then
        case inner_loop reg msg i 0 st of
          Inl f \<Rightarrow> Inl f
        | Inr st' \<Rightarrow> outer_loop reg msg (i + 1) st'
      else Inr st)"
  by pat_completeness auto
termination
  by (relation "measure (\<lambda>(reg, msg, i, st). length (points msg) - i)") auto

declare outer_loop.simps [simp del]

text \<open>
  What the callback leaves behind: the one message given to
  \<^verbatim>\<open>servo_command_pub_->publish\<close>, if any, and the errors logged.
\<close>

record cb_result =
  published :: "ServoCommand list option"
  logged :: "log_error list"

definition joint_command_callback :: "joints_map \<Rightarrow> JointTrajectory \<Rightarrow> fault + cb_result" where
  "joint_command_callback reg msg =
     (case outer_loop reg msg 0 \<lparr>commands = [], invalid = False, errors = []\<rparr> of
        Inl f \<Rightarrow> Inl f
      | Inr st \<Rightarrow>
          Inr \<lparr>published = (if \<not> invalid st then Some (commands st) else None),
               logged = errors st\<rparr>)"

section \<open>Relaxing the joints: \<^verbatim>\<open>relax_joints\<close>\<close>

text \<open>One \<^verbatim>\<open>DiscreteOutput\<close> message is published per entry of the map, in its order.\<close>

definition relax_joints :: "joints_map \<Rightarrow> DiscreteOutput list" where
  "relax_joints reg = map (\<lambda>(k, joint). \<lparr>out_channel = channel joint, out_output = 0\<rparr>) reg"

section \<open>State translation: \<^verbatim>\<open>publish_joint_states\<close>\<close>

text \<open>The loop of the response callback, lines 152 to 164.\<close>

function state_loop :: "Joint list \<Rightarrow> int list \<Rightarrow> nat \<Rightarrow> JointState \<Rightarrow> fault + JointState" where
  "state_loop joint_list pulse_width i joint_state_msg =
     (if i < length joint_list then
        if i < length pulse_width then
          let p = pulse_width ! i in
          if p > 0 then
            let p = (if invert (joint_list ! i) then invert_pulse_width p else p);
                angle = pw_to_angle (joint_list ! i) p
            in state_loop joint_list pulse_width (i + 1)
                 (joint_state_msg\<lparr>state_position := state_position joint_state_msg @ [angle],
                                  state_name := state_name joint_state_msg @ [name (joint_list ! i)]\<rparr>)
          else state_loop joint_list pulse_width (i + 1) joint_state_msg
        else Inl PulseWidthIndexOutOfRange
      else Inr joint_state_msg)"
  by pat_completeness auto
termination
  by (relation "measure (\<lambda>(joint_list, pulse_width, i, m). length joint_list - i)") auto

declare state_loop.simps [simp del]

definition response_received_callback :: "Joint list \<Rightarrow> int list \<Rightarrow> fault + JointState" where
  "response_received_callback joint_list pulse_width =
     state_loop joint_list pulse_width 0 \<lparr>state_position = [], state_name = []\<rparr>"

text \<open>
  \<^verbatim>\<open>publish_joint_states\<close> copies the joints of the map into \<^verbatim>\<open>joint_list\<close>, asks
  for the pulse widths of their channels, and runs the response callback on the
  answer.
\<close>

definition query_channels :: "joints_map \<Rightarrow> int list" where
  "query_channels reg = map (\<lambda>(k, joint). channel joint) reg"

definition publish_joint_states :: "joints_map \<Rightarrow> int list \<Rightarrow> fault + JointState" where
  "publish_joint_states reg pulse_width = response_received_callback (map snd reg) pulse_width"

section \<open>Predicates used to state the properties\<close>

text \<open>A joint name of the message has no entry in the map.\<close>

definition unknown_joint :: "joints_map \<Rightarrow> JointTrajectory \<Rightarrow> bool" where
  "unknown_joint reg msg = (\<exists>n \<in> set (joint_names msg). map_of reg n = None)"

text \<open>
  Position \<open>j\<close> of point \<open>i\<close> exists, belongs to a registered joint, and lies
  outside the inclusive range of that joint.
\<close>

definition angle_out_of_range :: "joints_map \<Rightarrow> JointTrajectory \<Rightarrow> nat \<Rightarrow> nat \<Rightarrow> bool" where
  "angle_out_of_range reg msg i j =
     (i < length (points msg) \<and> j < length (joint_names msg)
      \<and> j < length (positions (points msg ! i))
      \<and> (case map_of reg (joint_names msg ! j) of
            None \<Rightarrow> False
          | Some joint \<Rightarrow>
              \<not> (positions (points msg ! i) ! j \<ge> min_angle joint
                 \<and> positions (points msg ! i) ! j \<le> max_angle joint)))"

text \<open>
  Position \<open>j\<close> of point \<open>i\<close> exists, belongs to a registered joint, and passes
  the check of line 91.
\<close>

definition position_accepted :: "joints_map \<Rightarrow> JointTrajectory \<Rightarrow> nat \<Rightarrow> nat \<Rightarrow> bool" where
  "position_accepted reg msg i j =
     (j < length (positions (points msg ! i))
      \<and> (case map_of reg (joint_names msg ! j) of
            None \<Rightarrow> False
          | Some joint \<Rightarrow>
              positions (points msg ! i) ! j \<ge> min_angle joint
              \<and> positions (points msg ! i) ! j \<le> max_angle joint))"

text \<open>
  The command \<open>c\<close> is the one of position \<open>j\<close> of point \<open>i\<close>: it carries the
  channel of the joint, and its pulse width is the clamped raw value, inverted
  after the clamp if the joint is inverted.
\<close>

definition command_for :: "joints_map \<Rightarrow> JointTrajectory \<Rightarrow> nat \<Rightarrow> nat \<Rightarrow> ServoCommand \<Rightarrow> bool" where
  "command_for reg msg i j c =
     (\<exists>joint u. map_of reg (joint_names msg ! j) = Some joint
        \<and> raw_pulse_width joint (positions (points msg ! i) ! j) = Some u
        \<and> cmd_channel c = channel joint
        \<and> pw c = (if invert joint
                  then invert_pulse_width (clamp_pulse_width (unsigned_to_int u))
                  else clamp_pulse_width (unsigned_to_int u)))"

definition command_in_msg :: "joints_map \<Rightarrow> JointTrajectory \<Rightarrow> ServoCommand \<Rightarrow> bool" where
  "command_in_msg reg msg c =
     (\<exists>i < length (points msg). \<exists>j < length (joint_names msg). command_for reg msg i j c)"

text \<open>The error that the loop body logs when it rejects position \<open>j\<close> of point \<open>i\<close>.\<close>

definition body_error :: "joints_map \<Rightarrow> JointTrajectory \<Rightarrow> nat \<Rightarrow> nat \<Rightarrow> log_error" where
  "body_error reg msg i j =
     (case map_of reg (joint_names msg ! j) of
        None \<Rightarrow> JointDoesNotExist (joint_names msg ! i)
      | Some joint \<Rightarrow> InvalidPosition (positions (points msg ! i) ! j) (name joint))"

text \<open>A logged error stands for a defect that the message has.\<close>

fun error_justified :: "joints_map \<Rightarrow> JointTrajectory \<Rightarrow> log_error \<Rightarrow> bool" where
  "error_justified reg msg (JointDoesNotExist n) = unknown_joint reg msg"
| "error_justified reg msg (InvalidPosition a n) =
     (\<exists>i < length (points msg). \<exists>j < length (joint_names msg).
        angle_out_of_range reg msg i j \<and> a = positions (points msg ! i) ! j)"

text \<open>
  The invariant of the two loops: while \<^verbatim>\<open>invalid\<close> is false nothing is logged and
  every command pushed belongs to a position of the message; once it is true,
  exactly one error is logged.
\<close>

definition cb_inv :: "joints_map \<Rightarrow> JointTrajectory \<Rightarrow> cb_state \<Rightarrow> bool" where
  "cb_inv reg msg st =
     (if invalid st then (\<exists>e. errors st = [e] \<and> error_justified reg msg e)
      else errors st = [] \<and> list_all (command_in_msg reg msg) (commands st))"

text \<open>
  The readings above 0 from index \<open>i\<close> on, each with its joint, and the angle
  that lines 155 to 159 compute for a reading.
\<close>

definition readings :: "Joint list \<Rightarrow> int list \<Rightarrow> nat \<Rightarrow> (Joint \<times> int) list" where
  "readings joint_list pulse_width i =
     filter (\<lambda>(joint, p). p > 0) (drop i (zip joint_list pulse_width))"

definition reading_angle :: "Joint \<times> int \<Rightarrow> real" where
  "reading_angle = (\<lambda>(joint, p).
     (real_of_int (if invert joint then 3000 - p else p) - 1500) / scale + offset_angle joint)"

text \<open>
  The cast \<^verbatim>\<open>(unsigned int)x\<close> as a processor carries it out whose conversion
  wraps around: truncation towards zero, then reduction modulo \<open>2^32\<close>. It is
  \<open>to_unsigned_int\<close> wherever that is defined, and a value where it is not.
\<close>

definition wrapping_unsigned_int :: "real \<Rightarrow> int" where
  "wrapping_unsigned_int x = (if x < 0 then \<lceil>x\<rceil> else \<lfloor>x\<rfloor>) mod 4294967296"

definition wrapping_cast :: "real \<Rightarrow> int option" where
  "wrapping_cast x = Some (wrapping_unsigned_int x)"

text \<open>
  The command translation once more, lines 75 to 120, with the cast of line 93
  as a parameter. With \<open>to_unsigned_int\<close> it is \<open>joint_command_callback\<close>; with
  \<open>wrapping_cast\<close> it is the callback on a processor whose conversion wraps
  around.
\<close>

definition loop_body_with ::
  "(real \<Rightarrow> int option) \<Rightarrow> joints_map \<Rightarrow> JointTrajectory \<Rightarrow> nat \<Rightarrow> nat \<Rightarrow> cb_state
     \<Rightarrow> fault + cb_state" where
  "loop_body_with cast reg msg i j st =
     (let command = ServoCommand_default in
      case map_of reg (joint_names msg ! j) of
        Some joint \<Rightarrow>
          if j < length (positions (points msg ! i)) then
            let angle = positions (points msg ! i) ! j in
            if angle \<ge> min_angle joint \<and> angle \<le> max_angle joint then
              case cast (scale * (angle - offset_angle joint) + 1500 + 0.5) of
                None \<Rightarrow> Inl ConversionUndefined
              | Some u \<Rightarrow>
                  let command = command\<lparr>cmd_channel := channel joint\<rparr>;
                      command = command\<lparr>pw := unsigned_to_int u\<rparr>;
                      command = command\<lparr>pw := clamp_pulse_width (pw command)\<rparr>;
                      command = (if invert joint
                                 then command\<lparr>pw := invert_pulse_width (pw command)\<rparr>
                                 else command);
                      command = (if length (velocities (points msg ! i)) > j
                                    \<and> velocities (points msg ! i) ! j > 0
                                 then command\<lparr>speed := scale * (velocities (points msg ! i) ! j)\<rparr>
                                 else command)
                  in Inr (st\<lparr>commands := commands st @ [command]\<rparr>)
            else
              Inr (st\<lparr>commands := commands st @ [command], invalid := True,
                      errors := errors st @ [InvalidPosition angle (name joint)]\<rparr>)
          else Inl PositionIndexOutOfRange
      | None \<Rightarrow>
          if i < length (joint_names msg) then
            Inr (st\<lparr>commands := commands st @ [command], invalid := True,
                    errors := errors st @ [JointDoesNotExist (joint_names msg ! i)]\<rparr>)
          else Inl JointNameIndexOutOfRange)"

function inner_loop_with ::
  "(real \<Rightarrow> int option) \<Rightarrow> joints_map \<Rightarrow> JointTrajectory \<Rightarrow> nat \<Rightarrow> nat \<Rightarrow> cb_state
     \<Rightarrow> fault + cb_state" where
  "inner_loop_with cast reg msg i j st =
     (if j < length (joint_names msg) \<and> \<not> invalid st then
        case loop_body_with cast reg msg i j st of
          Inl f \<Rightarrow> Inl f
        | Inr st' \<Rightarrow> inner_loop_with cast reg msg i (j + 1) st'
      else Inr st)"
  by pat_completeness auto
termination
  by (relation "measure (\<lambda>(cast, reg, msg, i, j, st). length (joint_names msg) - j)") auto

declare inner_loop_with.simps [simp del]

function outer_loop_with ::
  "(real \<Rightarrow> int option) \<Rightarrow> joints_map \<Rightarrow> JointTrajectory \<Rightarrow> nat \<Rightarrow> cb_state
     \<Rightarrow> fault + cb_state" where
  "outer_loop_with cast reg msg i st =
     (if i < length (points msg) then
        case inner_loop_with cast reg msg i 0 st of
          Inl f \<Rightarrow> Inl f
        | Inr st' \<Rightarrow> outer_loop_with cast reg msg (i + 1) st'
      else Inr st)"
  by pat_completeness auto
termination
  by (relation "measure (\<lambda>(cast, reg, msg, i, st). length (points msg) - i)") auto

declare outer_loop_with.simps [simp del]

definition joint_command_callback_with ::
  "(real \<Rightarrow> int option) \<Rightarrow> joints_map \<Rightarrow> JointTrajectory \<Rightarrow> fault + cb_result" where
  "joint_command_callback_with cast reg msg =
     (case outer_loop_with cast reg msg 0 \<lparr>commands = [], invalid = False, errors = []\<rparr> of
        Inl f \<Rightarrow> Inl f
      | Inr st \<Rightarrow>
          Inr \<lparr>published = (if \<not> invalid st then Some (commands st) else None),
               logged = errors st\<rparr>)"

section \<open>Example configurations\<close>

text \<open>
  The joint of the spec's examples: channel 3, range \<open>[-1, 1]\<close>, no offset, not
  inverted. Then an inverted joint on channel 5; an inverted joint with the
  range \<open>[-4, 4]\<close>; and two joints whose offset is large.
\<close>

definition joint_J :: Joint where
  "joint_J = \<lparr>name = ''J'', channel = 3, min_angle = -1, max_angle = 1, offset_angle = 0,
              default_angle = 0, initialize = False, invert = False\<rparr>"

definition joint_K :: Joint where
  "joint_K = \<lparr>name = ''K'', channel = 5, min_angle = -1, max_angle = 1, offset_angle = 0,
              default_angle = 0, initialize = False, invert = True\<rparr>"

definition joint_W :: Joint where
  "joint_W = \<lparr>name = ''W'', channel = 1, min_angle = -4, max_angle = 4, offset_angle = 0,
              default_angle = 0, initialize = False, invert = True\<rparr>"

definition joint_L :: Joint where
  "joint_L = \<lparr>name = ''L'', channel = 7, min_angle = -1, max_angle = 1,
              offset_angle = 1501 * pi / 2000,
              default_angle = 0, initialize = False, invert = False\<rparr>"




definition example_joints :: joints_map where
  "example_joints = [(''J'', joint_J), (''W'', joint_W)]"

text \<open>
  Two points for the joints \<open>J\<close> and \<open>W\<close>; the first point has one velocity
  only. A message whose second point is out of range, and a message without
  points.
\<close>

definition example_msg :: JointTrajectory where
  "example_msg = \<lparr>joint_names = [''J'', ''W''],
                  points = [\<lparr>positions = [0, pi], velocities = [1]\<rparr>,
                            \<lparr>positions = [0, 0], velocities = []\<rparr>]\<rparr>"

definition msg_two_points :: JointTrajectory where
  "msg_two_points = \<lparr>joint_names = [''J''],
                     points = [\<lparr>positions = [0], velocities = []\<rparr>,
                               \<lparr>positions = [2], velocities = []\<rparr>]\<rparr>"

definition msg_no_points :: JointTrajectory where
  "msg_no_points = \<lparr>joint_names = [''X''], points = []\<rparr>"

section \<open>Properties of the pulse-width arithmetic\<close>

lemma clamp_pulse_width_range: "500 \<le> clamp_pulse_width p \<and> clamp_pulse_width p \<le> 2500"
  by (simp add: clamp_pulse_width_def)

lemma to_unsigned_int_nonneg:
  "0 \<le> x \<Longrightarrow> x < 4294967296 \<Longrightarrow> to_unsigned_int x = Some \<lfloor>x\<rfloor>"
proof -
  assume x: "0 \<le> x" "x < 4294967296"
  then have "0 \<le> \<lfloor>x\<rfloor>" by simp
  moreover from x(2) have "\<lfloor>x\<rfloor> < 4294967296" by (simp add: floor_less_iff)
  ultimately show ?thesis using x(1) by (simp add: to_unsigned_int_def)
qed

lemma to_unsigned_int_negative:
  assumes "x < 0"
  shows "to_unsigned_int x = (if -1 < x then Some 0 else None)"
proof (cases "-1 < x")
  case True
  with assms have "\<lceil>x\<rceil> = 0" by (simp add: ceiling_eq_iff)
  with assms True show ?thesis by (simp add: to_unsigned_int_def)
next
  case False
  then have "\<lceil>x\<rceil> \<le> -1" by (simp add: ceiling_le_iff)
  with assms False show ?thesis by (simp add: to_unsigned_int_def)
qed

lemma to_unsigned_int_Some:
  assumes "to_unsigned_int x = Some u"
  shows "0 \<le> u \<and> u < 4294967296 \<and> ((0 \<le> x \<and> u = \<lfloor>x\<rfloor>) \<or> (x < 0 \<and> u = 0))"
proof (cases "x < 0")
  case True
  from assms to_unsigned_int_negative [OF True] have "u = 0"
    by (simp split: if_splits)
  with True show ?thesis by simp
next
  case False
  with assms show ?thesis
    by (auto simp: to_unsigned_int_def Let_def split: if_splits)
qed

lemma raw_pulse_width_Some:
  assumes "raw_pulse_width joint a = Some u"
  shows "0 \<le> u \<and> u < 4294967296
         \<and> ((0 \<le> scale * (a - offset_angle joint) + 1500 + 0.5
               \<and> u = \<lfloor>scale * (a - offset_angle joint) + 1500 + 0.5\<rfloor>)
             \<or> (scale * (a - offset_angle joint) + 1500 + 0.5 < 0 \<and> u = 0))"
  using assms unfolding raw_pulse_width_def by (rule to_unsigned_int_Some)

lemma joint_J_fields:
  "min_angle joint_J = -1" "max_angle joint_J = 1" "\<not> invert joint_J" "channel joint_J = 3"
  "name joint_J = ''J''"
  by (simp_all add: joint_J_def)

lemma joint_W_fields:
  "min_angle joint_W = -4" "max_angle joint_W = 4" "invert joint_W" "channel joint_W = 1"
  by (simp_all add: joint_W_def)

lemma pi_in_W: "- 4 \<le> pi" "pi \<le> 4"
  using pi_ge_two pi_less_4 by linarith+

lemma raw_joint_J_0: "raw_pulse_width joint_J 0 = Some 1500"
  by (simp add: raw_pulse_width_def joint_J_def to_unsigned_int_def)

lemma raw_joint_W_0: "raw_pulse_width joint_W 0 = Some 1500"
  by (simp add: raw_pulse_width_def joint_W_def to_unsigned_int_def)

lemma raw_joint_W_pi: "raw_pulse_width joint_W pi = Some 3500"
  by (simp add: raw_pulse_width_def joint_W_def scale_def to_unsigned_int_def)

lemma raw_J_small: "raw_pulse_width joint_J (1 / 4000) = Some 1500"
proof -
  have p: "2 \<le> pi" by (rule pi_ge_two)
  have e: "scale * (1 / 4000 - offset_angle joint_J) + 1500 + 0.5 = 1 / (2 * pi) + 3001 / 2"
    by (simp add: scale_def joint_J_def)
  from p have "1 / (2 * pi) \<le> 1 / 4"
    by (simp add: field_simps)
  moreover have "0 < 1 / (2 * pi)" by simp
  ultimately have "\<lfloor>1 / (2 * pi) + 3001 / 2\<rfloor> = 1500"
    by (intro floor_unique) linarith+
  moreover have "0 \<le> 1 / (2 * pi) + 3001 / 2" by (simp add: add_nonneg_nonneg)
  moreover have "1 / (2 * pi) + 3001 / 2 < 4294967296"
    using \<open>1 / (2 * pi) \<le> 1 / 4\<close> by linarith
  ultimately have "to_unsigned_int (1 / (2 * pi) + 3001 / 2) = Some 1500"
    by (simp only: to_unsigned_int_nonneg)
  then show ?thesis
    unfolding raw_pulse_width_def e .
qed

lemma scale_joint_L: "scale * (0 - offset_angle joint_L) = -1501"
  by (simp add: scale_def joint_L_def)




subsection \<open>Inversion\<close>

text \<open>
  Claim C7. The inversion of a pulse width \<open>p\<close> is \<open>3000 - p\<close>, the reflection
  around 1500. On every pulse width of the valid range \<open>[500, 2500]\<close> it stays
  in the range and is its own inverse.
\<close>

theorem invert_pulse_width_involution:
  "invert_pulse_width p = 3000 - p
   \<and> invert_pulse_width p - 1500 = 1500 - p
   \<and> (500 \<le> p \<and> p \<le> 2500 \<longrightarrow>
        500 \<le> invert_pulse_width p \<and> invert_pulse_width p \<le> 2500
        \<and> invert_pulse_width (invert_pulse_width p) = p)"
  by (simp add: invert_pulse_width_def)

theorem invert_pulse_width_involution_witness:
  "(500::int) \<le> 700 \<and> (700::int) \<le> 2500
     \<and> invert_pulse_width 700 = 2300 \<and> invert_pulse_width 700 - 1500 = 1500 - 700
     \<and> invert_pulse_width (invert_pulse_width 700) = 700"
  using invert_pulse_width_involution [of 700] by (simp add: invert_pulse_width_def)

subsection \<open>The raw pulse width\<close>

text \<open>
  Claim C4, amended. Whenever \<open>scale * (angle - offset_angle) + 1500 + 0.5\<close> lies
  in \<open>[0, 2^32)\<close>, the raw pulse width of line 93 is the integer nearest to
  \<open>scale * (angle - offset_angle) + 1500\<close> (a tie goes upwards), with
  \<open>scale = 2000 / pi\<close>. In particular, for the joint on channel 3 with
  offset 0, not inverted, the angle 0 is published as channel 3 with pulse
  width 1500.
\<close>

theorem raw_pulse_width_rounds:
  "(0 \<le> scale * (angle - offset_angle joint) + 1500 + 0.5
      \<and> scale * (angle - offset_angle joint) + 1500 + 0.5 < 4294967296
    \<longrightarrow> raw_pulse_width joint angle = Some (round (scale * (angle - offset_angle joint) + 1500)))
   \<and> joint_command_callback [(''J'', joint_J)]
        \<lparr>joint_names = [''J''], points = [\<lparr>positions = [0], velocities = []\<rparr>]\<rparr>
       = Inr \<lparr>published = Some [\<lparr>cmd_channel = 3, pw = 1500, speed = 0\<rparr>], logged = []\<rparr>"
proof (rule conjI)
  show "0 \<le> scale * (angle - offset_angle joint) + 1500 + 0.5
      \<and> scale * (angle - offset_angle joint) + 1500 + 0.5 < 4294967296
    \<longrightarrow> raw_pulse_width joint angle = Some (round (scale * (angle - offset_angle joint) + 1500))"
  proof
    assume h: "0 \<le> scale * (angle - offset_angle joint) + 1500 + 0.5
      \<and> scale * (angle - offset_angle joint) + 1500 + 0.5 < 4294967296"
    then have "raw_pulse_width joint angle
                 = Some \<lfloor>scale * (angle - offset_angle joint) + 1500 + 0.5\<rfloor>"
      unfolding raw_pulse_width_def by (intro to_unsigned_int_nonneg) simp_all
    then show "raw_pulse_width joint angle
                 = Some (round (scale * (angle - offset_angle joint) + 1500))"
      by (simp add: round_def add.assoc)
  qed
next
  show "joint_command_callback [(''J'', joint_J)]
        \<lparr>joint_names = [''J''], points = [\<lparr>positions = [0], velocities = []\<rparr>]\<rparr>
       = Inr \<lparr>published = Some [\<lparr>cmd_channel = 3, pw = 1500, speed = 0\<rparr>], logged = []\<rparr>"
    by (simp add: joint_command_callback_def joint_J_def outer_loop.simps
        inner_loop.simps loop_body_def raw_pulse_width_def to_unsigned_int_def
        unsigned_to_int_def clamp_pulse_width_def ServoCommand_default_def Let_def)
qed

theorem raw_pulse_width_rounds_witness:
  "0 \<le> scale * (pi - offset_angle joint_W) + 1500 + 0.5
   \<and> scale * (pi - offset_angle joint_W) + 1500 + 0.5 < 4294967296
   \<and> raw_pulse_width joint_W pi = Some 3500
   \<and> round (scale * (pi - offset_angle joint_W) + 1500) = 3500"
  using raw_pulse_width_rounds [of pi joint_W] raw_joint_W_pi
  by (simp add: scale_def joint_W_def)

text \<open>
  The claim C4 as stated, for every angle of the joint's range, fails: with the
  offset \<open>1501 * pi / 2000\<close> the angle 0 of the range \<open>[-1, 1]\<close> has the real value
  \<open>-1\<close>, which rounds to \<open>-1\<close>, while the cast of \<open>-0.5\<close> to \<^verbatim>\<open>unsigned int\<close>
  gives 0.
\<close>

theorem raw_pulse_width_rounds_counterexample:
  "min_angle joint_L \<le> 0 \<and> 0 \<le> max_angle joint_L
   \<and> raw_pulse_width joint_L 0 = Some 0
   \<and> round (scale * (0 - offset_angle joint_L) + 1500) = -1"
proof -
  have "raw_pulse_width joint_L 0 = to_unsigned_int (- (1/2))"
    unfolding raw_pulse_width_def scale_joint_L by simp
  also have "\<dots> = Some 0"
    by (simp add: to_unsigned_int_negative)
  finally have "raw_pulse_width joint_L 0 = Some 0" .
  moreover have "round (scale * (0 - offset_angle joint_L) + 1500) = -1"
    unfolding scale_joint_L by (simp add: round_def)
  ultimately show ?thesis by (simp add: joint_L_def)
qed

subsection \<open>Round trip\<close>

text \<open>
  Claim C5, amended. For a joint that is not inverted and an angle whose raw
  pulse width needs no clamping, the angle recovered from the pulse width
  differs from the commanded angle by at most half a microsecond step,
  \<open>pi / 4000\<close> radians: the pulse width is a whole number of microseconds.
\<close>

theorem round_trip_within_half_step:
  assumes "\<not> invert joint"
    and "raw_pulse_width joint a = Some u"
    and "clamp_pulse_width (unsigned_to_int u) = unsigned_to_int u"
  shows "\<bar>pw_to_angle joint (clamp_pulse_width (unsigned_to_int u)) - a\<bar> \<le> pi / 4000"
proof -
  define v where "v = scale * (a - offset_angle joint) + 1500"
  from assms(3) have r: "500 \<le> unsigned_to_int u \<and> unsigned_to_int u \<le> 2500"
    by (simp add: clamp_pulse_width_def split: if_splits)
  moreover from raw_pulse_width_Some [OF assms(2)] have "u < 4294967296" by simp
  ultimately have uu: "unsigned_to_int u = u"
    by (simp add: unsigned_to_int_def split: if_splits)
  with r have u500: "500 \<le> u" by simp
  from raw_pulse_width_Some [OF assms(2)] u500
  have u: "u = \<lfloor>v + 1/2\<rfloor>" by (auto simp: v_def)
  have lo: "real_of_int u \<le> v + 1/2" unfolding u by (rule of_int_floor_le)
  have hi: "v + 1/2 < real_of_int u + 1" unfolding u by linarith
  from lo hi have d: "\<bar>real_of_int u - v\<bar> \<le> 1/2" by linarith
  have sp: "0 < scale" by (simp add: scale_def)
  have "pw_to_angle joint u - a = (real_of_int u - v) / scale"
    using sp by (simp add: pw_to_angle_def v_def field_simps)
  then have "\<bar>pw_to_angle joint u - a\<bar> = \<bar>real_of_int u - v\<bar> / scale"
    using sp by simp
  also have "\<dots> \<le> (1/2) / scale"
    by (rule divide_right_mono [OF d]) (rule less_imp_le [OF sp])
  also have "(1/2) / scale = pi / 4000"
    by (simp add: scale_def)
  finally show ?thesis using assms(3) uu by simp
qed

theorem round_trip_within_half_step_witness:
  "\<not> invert joint_J \<and> raw_pulse_width joint_J (1 / 4000) = Some 1500
   \<and> clamp_pulse_width (unsigned_to_int 1500) = unsigned_to_int 1500
   \<and> \<bar>pw_to_angle joint_J (clamp_pulse_width (unsigned_to_int 1500)) - 1 / 4000\<bar> \<le> pi / 4000"
proof -
  have a: "\<not> invert joint_J" by (simp add: joint_J_def)
  have c: "clamp_pulse_width (unsigned_to_int 1500) = unsigned_to_int 1500"
    by (simp add: clamp_pulse_width_def unsigned_to_int_def)
  from round_trip_within_half_step [OF a raw_J_small c] a raw_J_small c
  show ?thesis by blast
qed

text \<open>
  The claim C5 as stated, equality up to the rounding error of the floating-point
  operations, fails: the angle \<open>1 / 4000\<close> of the joint without offset is sent as
  pulse width 1500 and comes back as the angle 0.
\<close>

theorem round_trip_counterexample:
  "\<not> invert joint_J
   \<and> min_angle joint_J \<le> 1 / 4000 \<and> 1 / 4000 \<le> max_angle joint_J
   \<and> raw_pulse_width joint_J (1 / 4000) = Some 1500
   \<and> clamp_pulse_width (unsigned_to_int 1500) = unsigned_to_int 1500
   \<and> pw_to_angle joint_J (clamp_pulse_width (unsigned_to_int 1500)) = 0
   \<and> \<bar>pw_to_angle joint_J (clamp_pulse_width (unsigned_to_int 1500)) - 1 / 4000\<bar> = 1 / 4000"
  using raw_J_small
  by (simp add: joint_J_def clamp_pulse_width_def unsigned_to_int_def pw_to_angle_def)

section \<open>Properties of the command translation\<close>

lemma command_for_range:
  "command_for reg msg i j c \<Longrightarrow> 500 \<le> pw c \<and> pw c \<le> 2500"
  using clamp_pulse_width_range
  by (auto simp: command_for_def invert_pulse_width_def split: if_splits)

lemma loop_body_Inr:
  assumes "loop_body reg msg i j st = Inr st'"
  shows "(\<exists>c. st' = st\<lparr>commands := commands st @ [c]\<rparr> \<and> command_for reg msg i j c
              \<and> position_accepted reg msg i j)
         \<or> (st' = st\<lparr>commands := commands st @ [ServoCommand_default], invalid := True,
                      errors := errors st @ [body_error reg msg i j]\<rparr>
             \<and> \<not> position_accepted reg msg i j
             \<and> (map_of reg (joint_names msg ! j) = None
                 \<or> j < length (positions (points msg ! i))))"
proof (cases "map_of reg (joint_names msg ! j)")
  case None
  with assms show ?thesis
    by (auto simp: loop_body_def position_accepted_def body_error_def split: if_splits)
next
  case (Some joint)
  show ?thesis
  proof (cases "position_accepted reg msg i j")
    case False
    with Some assms show ?thesis
      by (auto simp: loop_body_def position_accepted_def body_error_def Let_def split: if_splits)
  next
    case True
    with Some assms obtain u where
      u: "raw_pulse_width joint (positions (points msg ! i) ! j) = Some u"
      by (auto simp: loop_body_def position_accepted_def Let_def split: if_splits option.splits)
    from True Some assms u
    have "\<exists>c. st' = st\<lparr>commands := commands st @ [c]\<rparr> \<and> command_for reg msg i j c"
      by (auto simp: loop_body_def position_accepted_def Let_def command_for_def
               split: if_splits)
    with True show ?thesis by blast
  qed
qed

lemma body_error_justified:
  assumes "i < length (points msg)" "j < length (joint_names msg)"
    and "\<not> position_accepted reg msg i j"
    and "map_of reg (joint_names msg ! j) = None \<or> j < length (positions (points msg ! i))"
  shows "error_justified reg msg (body_error reg msg i j)"
proof (cases "map_of reg (joint_names msg ! j)")
  case None
  with assms(2) have "unknown_joint reg msg"
    unfolding unknown_joint_def using nth_mem by blast
  with None show ?thesis by (simp add: body_error_def)
next
  case (Some joint)
  with assms have "angle_out_of_range reg msg i j"
    by (simp add: angle_out_of_range_def position_accepted_def)
  with Some assms(1,2) show ?thesis
    by (auto simp: body_error_def)
qed

lemma loop_body_inv:
  assumes "loop_body reg msg i j st = Inr st'" "cb_inv reg msg st" "\<not> invalid st"
    and "i < length (points msg)" "j < length (joint_names msg)"
  shows "cb_inv reg msg st'"
proof -
  from loop_body_Inr [OF assms(1)] show ?thesis
  proof
    assume "\<exists>c. st' = st\<lparr>commands := commands st @ [c]\<rparr> \<and> command_for reg msg i j c
              \<and> position_accepted reg msg i j"
    then obtain c where c: "st' = st\<lparr>commands := commands st @ [c]\<rparr>"
      "command_for reg msg i j c" by blast
    from c(2) assms(4,5) have "command_in_msg reg msg c"
      unfolding command_in_msg_def by blast
    with c(1) assms(2,3) show ?thesis by (simp add: cb_inv_def)
  next
    assume r: "st' = st\<lparr>commands := commands st @ [ServoCommand_default], invalid := True,
                      errors := errors st @ [body_error reg msg i j]\<rparr>
             \<and> \<not> position_accepted reg msg i j
             \<and> (map_of reg (joint_names msg ! j) = None
                 \<or> j < length (positions (points msg ! i)))"
    then have "error_justified reg msg (body_error reg msg i j)"
      using body_error_justified [OF assms(4,5)] by blast
    with r assms(2,3) show ?thesis by (simp add: cb_inv_def)
  qed
qed

lemma loop_body_Inl:
  assumes "loop_body reg msg i j st = Inl f"
  shows "(f = PositionIndexOutOfRange \<and> \<not> j < length (positions (points msg ! i)))
         \<or> (f = JointNameIndexOutOfRange \<and> map_of reg (joint_names msg ! j) = None
             \<and> \<not> i < length (joint_names msg))
         \<or> (f = ConversionUndefined
             \<and> (\<exists>joint. map_of reg (joint_names msg ! j) = Some joint
                   \<and> position_accepted reg msg i j
                   \<and> raw_pulse_width joint (positions (points msg ! i) ! j) = None))"
  using assms
  by (auto simp: loop_body_def Let_def position_accepted_def split: option.splits if_splits)

lemma inner_loop_invalid: "invalid st \<Longrightarrow> inner_loop reg msg i j st = Inr st"
  by (simp add: inner_loop.simps [of reg msg i j st])

lemma inner_loop_inv:
  "inner_loop reg msg i j st = Inr st' \<Longrightarrow> cb_inv reg msg st \<Longrightarrow> i < length (points msg)
     \<Longrightarrow> cb_inv reg msg st'"
proof (induction reg msg i j st rule: inner_loop.induct)
  case (1 reg msg i j st)
  show ?case
  proof (cases "j < length (joint_names msg) \<and> \<not> invalid st")
    case True
    with "1.prems"(1) obtain st1 where
      b: "loop_body reg msg i j st = Inr st1" and
      r: "inner_loop reg msg i (j + 1) st1 = Inr st'"
      by (auto simp: inner_loop.simps [of reg msg i j st] split: sum.splits)
    from loop_body_inv [OF b "1.prems"(2)] True "1.prems"(3)
    have "cb_inv reg msg st1" by simp
    with "1.IH" [OF True b r] "1.prems"(3) show ?thesis by simp
  next
    case False
    with "1.prems" show ?thesis
      by (auto simp: inner_loop.simps [of reg msg i j st])
  qed
qed

lemma inner_loop_accepts:
  "inner_loop reg msg i j st = Inr st' \<Longrightarrow> \<not> invalid st'
     \<Longrightarrow> \<not> invalid st
         \<and> (\<forall>j'. j \<le> j' \<and> j' < length (joint_names msg) \<longrightarrow> position_accepted reg msg i j')
         \<and> length (commands st') = length (commands st) + (length (joint_names msg) - j)"
proof (induction reg msg i j st rule: inner_loop.induct)
  case (1 reg msg i j st)
  show ?case
  proof (cases "j < length (joint_names msg) \<and> \<not> invalid st")
    case True
    with "1.prems"(1) obtain st1 where
      b: "loop_body reg msg i j st = Inr st1" and
      r: "inner_loop reg msg i (j + 1) st1 = Inr st'"
      by (auto simp: inner_loop.simps [of reg msg i j st] split: sum.splits)
    note ih = "1.IH" [OF True b r "1.prems"(2)]
    from ih have v1: "\<not> invalid st1" by (rule conjunct1)
    from ih have rest: "\<forall>j'. j + 1 \<le> j' \<and> j' < length (joint_names msg)
                           \<longrightarrow> position_accepted reg msg i j'"
      by (rule conjunct2 [THEN conjunct1])
    from ih have len': "length (commands st') = length (commands st1)
                          + (length (joint_names msg) - (j + 1))"
      by (rule conjunct2 [THEN conjunct2])
    from loop_body_Inr [OF b] v1
    have acc: "position_accepted reg msg i j"
      and len: "length (commands st1) = length (commands st) + 1"
      by auto
    have "\<forall>j'. j \<le> j' \<and> j' < length (joint_names msg) \<longrightarrow> position_accepted reg msg i j'"
    proof (intro allI impI)
      fix j' assume "j \<le> j' \<and> j' < length (joint_names msg)"
      then have "j' = j \<or> (j + 1 \<le> j' \<and> j' < length (joint_names msg))" by arith
      with acc rest show "position_accepted reg msg i j'" by blast
    qed
    moreover from len' len True
    have "length (commands st') = length (commands st) + (length (joint_names msg) - j)"
      by arith
    ultimately show ?thesis using True by blast
  next
    case False
    with "1.prems" show ?thesis
      by (auto simp: inner_loop.simps [of reg msg i j st])
  qed
qed

lemma inner_loop_Inl:
  "inner_loop reg msg i j st = Inl f
     \<Longrightarrow> \<exists>j' st1. j \<le> j' \<and> j' < length (joint_names msg) \<and> loop_body reg msg i j' st1 = Inl f"
proof (induction reg msg i j st rule: inner_loop.induct)
  case (1 reg msg i j st)
  show ?case
  proof (cases "j < length (joint_names msg) \<and> \<not> invalid st")
    case True
    show ?thesis
    proof (cases "loop_body reg msg i j st")
      case (Inl f')
      with True "1.prems" have "loop_body reg msg i j st = Inl f"
        by (simp add: inner_loop.simps [of reg msg i j st])
      with True show ?thesis by blast
    next
      case (Inr st1)
      with True "1.prems" have "inner_loop reg msg i (j + 1) st1 = Inl f"
        by (simp add: inner_loop.simps [of reg msg i j st])
      from "1.IH" [OF True Inr this] obtain j' st2 where
        "j + 1 \<le> j'" "j' < length (joint_names msg)" "loop_body reg msg i j' st2 = Inl f"
        by blast
      then have "j \<le> j' \<and> j' < length (joint_names msg) \<and> loop_body reg msg i j' st2 = Inl f"
        by simp
      then show ?thesis by blast
    qed
  next
    case False
    with "1.prems" show ?thesis
      by (simp add: inner_loop.simps [of reg msg i j st])
  qed
qed

lemma outer_loop_invalid: "invalid st \<Longrightarrow> outer_loop reg msg i st = Inr st"
proof (induction reg msg i st rule: outer_loop.induct)
  case (1 reg msg i st)
  show ?case
  proof (cases "i < length (points msg)")
    case True
    have "inner_loop reg msg i 0 st = Inr st"
      using "1.prems" by (rule inner_loop_invalid)
    with "1.IH" [OF True this "1.prems"] True show ?thesis
      by (simp add: outer_loop.simps [of reg msg i st])
  next
    case False
    then show ?thesis by (simp add: outer_loop.simps [of reg msg i st])
  qed
qed

lemma outer_loop_inv:
  "outer_loop reg msg i st = Inr st' \<Longrightarrow> cb_inv reg msg st \<Longrightarrow> cb_inv reg msg st'"
proof (induction reg msg i st rule: outer_loop.induct)
  case (1 reg msg i st)
  show ?case
  proof (cases "i < length (points msg)")
    case True
    with "1.prems"(1) obtain st1 where
      b: "inner_loop reg msg i 0 st = Inr st1" and
      r: "outer_loop reg msg (i + 1) st1 = Inr st'"
      by (auto simp: outer_loop.simps [of reg msg i st] split: sum.splits)
    from inner_loop_inv [OF b "1.prems"(2) True] have "cb_inv reg msg st1" .
    with "1.IH" [OF True b r] show ?thesis .
  next
    case False
    with "1.prems" show ?thesis
      by (simp add: outer_loop.simps [of reg msg i st])
  qed
qed

lemma outer_loop_accepts:
  "outer_loop reg msg i st = Inr st' \<Longrightarrow> \<not> invalid st'
     \<Longrightarrow> \<not> invalid st
         \<and> (\<forall>i' j'. i \<le> i' \<and> i' < length (points msg) \<and> j' < length (joint_names msg)
               \<longrightarrow> position_accepted reg msg i' j')
         \<and> length (commands st')
             = length (commands st) + (length (points msg) - i) * length (joint_names msg)"
proof (induction reg msg i st rule: outer_loop.induct)
  case (1 reg msg i st)
  show ?case
  proof (cases "i < length (points msg)")
    case True
    with "1.prems"(1) obtain st1 where
      b: "inner_loop reg msg i 0 st = Inr st1" and
      r: "outer_loop reg msg (i + 1) st1 = Inr st'"
      by (auto simp: outer_loop.simps [of reg msg i st] split: sum.splits)
    note ih = "1.IH" [OF True b r "1.prems"(2)]
    from ih have v1: "\<not> invalid st1" by (rule conjunct1)
    from ih have rest: "\<forall>i' j'. i + 1 \<le> i' \<and> i' < length (points msg)
                             \<and> j' < length (joint_names msg)
                           \<longrightarrow> position_accepted reg msg i' j'"
      by (rule conjunct2 [THEN conjunct1])
    from ih have len': "length (commands st') = length (commands st1)
                          + (length (points msg) - (i + 1)) * length (joint_names msg)"
      by (rule conjunct2 [THEN conjunct2])
    note inner = inner_loop_accepts [OF b v1]
    from inner have v0: "\<not> invalid st" by (rule conjunct1)
    from inner have here: "\<forall>j'. 0 \<le> j' \<and> j' < length (joint_names msg)
                              \<longrightarrow> position_accepted reg msg i j'"
      by (rule conjunct2 [THEN conjunct1])
    from inner have len: "length (commands st1)
                            = length (commands st) + length (joint_names msg)"
      by simp
    have "\<forall>i' j'. i \<le> i' \<and> i' < length (points msg) \<and> j' < length (joint_names msg)
            \<longrightarrow> position_accepted reg msg i' j'"
    proof (intro allI impI)
      fix i' j'
      assume h: "i \<le> i' \<and> i' < length (points msg) \<and> j' < length (joint_names msg)"
      then have "i' = i \<or> i + 1 \<le> i'" by arith
      then show "position_accepted reg msg i' j'"
      proof
        assume "i' = i" with here h show ?thesis by simp
      next
        assume "i + 1 \<le> i'" with rest h show ?thesis by blast
      qed
    qed
    moreover have "length (commands st')
             = length (commands st) + (length (points msg) - i) * length (joint_names msg)"
    proof -
      from True have "length (points msg) - i = Suc (length (points msg) - (i + 1))" by arith
      with len' len show ?thesis by simp
    qed
    ultimately show ?thesis using v0 by blast
  next
    case False
    with "1.prems" show ?thesis
      by (auto simp: outer_loop.simps [of reg msg i st])
  qed
qed

lemma outer_loop_Inl:
  "outer_loop reg msg i st = Inl f
     \<Longrightarrow> \<exists>i' j' st1. i \<le> i' \<and> i' < length (points msg) \<and> j' < length (joint_names msg)
           \<and> loop_body reg msg i' j' st1 = Inl f
           \<and> (i' = i \<or> (\<forall>j < length (joint_names msg). position_accepted reg msg i j))"
proof (induction reg msg i st rule: outer_loop.induct)
  case (1 reg msg i st)
  show ?case
  proof (cases "i < length (points msg)")
    case True
    show ?thesis
    proof (cases "inner_loop reg msg i 0 st")
      case (Inl f')
      with True "1.prems" have "inner_loop reg msg i 0 st = Inl f"
        by (simp add: outer_loop.simps [of reg msg i st])
      from inner_loop_Inl [OF this] True show ?thesis by blast
    next
      case (Inr st1)
      with True "1.prems" have r: "outer_loop reg msg (i + 1) st1 = Inl f"
        by (simp add: outer_loop.simps [of reg msg i st])
      have "\<not> invalid st1"
      proof
        assume "invalid st1"
        from outer_loop_invalid [OF this] r show False by simp
      qed
      from inner_loop_accepts [OF Inr this]
      have here: "\<forall>j < length (joint_names msg). position_accepted reg msg i j" by simp
      from "1.IH" [OF True Inr r] obtain i' j' st2 where
        "i + 1 \<le> i'" "i' < length (points msg)" "j' < length (joint_names msg)"
        "loop_body reg msg i' j' st2 = Inl f"
        by blast
      with here have "i \<le> i' \<and> i' < length (points msg) \<and> j' < length (joint_names msg)
           \<and> loop_body reg msg i' j' st2 = Inl f
           \<and> (i' = i \<or> (\<forall>j < length (joint_names msg). position_accepted reg msg i j))"
        by simp
      then show ?thesis by blast
    qed
  next
    case False
    with "1.prems" show ?thesis
      by (simp add: outer_loop.simps [of reg msg i st])
  qed
qed

lemma callback_Inr:
  assumes "joint_command_callback reg msg = Inr out"
  obtains st where
    "outer_loop reg msg 0 \<lparr>commands = [], invalid = False, errors = []\<rparr> = Inr st"
    "published out = (if \<not> invalid st then Some (commands st) else None)"
    "logged out = errors st"
    "cb_inv reg msg st"
proof -
  from assms obtain st where
    st: "outer_loop reg msg 0 \<lparr>commands = [], invalid = False, errors = []\<rparr> = Inr st"
    and out: "out = \<lparr>published = (if \<not> invalid st then Some (commands st) else None),
                     logged = errors st\<rparr>"
    by (auto simp: joint_command_callback_def split: sum.splits)
  have "cb_inv reg msg \<lparr>commands = [], invalid = False, errors = []\<rparr>"
    by (simp add: cb_inv_def)
  from outer_loop_inv [OF st this] have "cb_inv reg msg st" .
  with st out that show ?thesis by simp
qed

lemma callback_Inl:
  assumes "joint_command_callback reg msg = Inl f"
  shows "(f = PositionIndexOutOfRange
          \<and> (\<exists>i < length (points msg). \<exists>j < length (joint_names msg).
                \<not> j < length (positions (points msg ! i))))
         \<or> (f = ConversionUndefined
             \<and> (\<exists>i < length (points msg). \<exists>j < length (joint_names msg). \<exists>joint.
                   map_of reg (joint_names msg ! j) = Some joint
                   \<and> position_accepted reg msg i j
                   \<and> raw_pulse_width joint (positions (points msg ! i) ! j) = None))"
proof -
  from assms
  have "outer_loop reg msg 0 \<lparr>commands = [], invalid = False, errors = []\<rparr> = Inl f"
    by (auto simp: joint_command_callback_def split: sum.splits)
  from outer_loop_Inl [OF this] obtain i j st1 where
    i: "i < length (points msg)" and j: "j < length (joint_names msg)"
    and b: "loop_body reg msg i j st1 = Inl f"
    and first: "i = 0 \<or> (\<forall>j < length (joint_names msg). position_accepted reg msg 0 j)"
    by blast
  from loop_body_Inl [OF b] show ?thesis
  proof (elim disjE conjE)
    assume "f = PositionIndexOutOfRange" "\<not> j < length (positions (points msg ! i))"
    with i j show ?thesis by blast
  next
    assume n: "map_of reg (joint_names msg ! j) = None" "\<not> i < length (joint_names msg)"
    from first have False
    proof
      assume "i = 0" with n(2) j show False by simp
    next
      assume "\<forall>j < length (joint_names msg). position_accepted reg msg 0 j"
      with j have "position_accepted reg msg 0 j" by blast
      with n(1) show False by (simp add: position_accepted_def)
    qed
    then show ?thesis ..
  next
    assume "f = ConversionUndefined"
      "\<exists>joint. map_of reg (joint_names msg ! j) = Some joint
                   \<and> position_accepted reg msg i j
                   \<and> raw_pulse_width joint (positions (points msg ! i) ! j) = None"
    with i j show ?thesis by blast
  qed
qed

lemma accepted_excludes:
  assumes "\<forall>i' j'. i' < length (points msg) \<and> j' < length (joint_names msg)
               \<longrightarrow> position_accepted reg msg i' j'"
    and "points msg \<noteq> []"
  shows "\<not> unknown_joint reg msg" "\<not> angle_out_of_range reg msg i j"
proof -
  show "\<not> unknown_joint reg msg"
  proof
    assume "unknown_joint reg msg"
    then obtain j where j: "j < length (joint_names msg)"
      and n: "map_of reg (joint_names msg ! j) = None"
      by (auto simp: unknown_joint_def in_set_conv_nth)
    from assms(2) have "0 < length (points msg)" by simp
    with assms(1) j have "position_accepted reg msg 0 j" by blast
    with n show False by (simp add: position_accepted_def)
  qed
  show "\<not> angle_out_of_range reg msg i j"
  proof
    assume a: "angle_out_of_range reg msg i j"
    then have "i < length (points msg) \<and> j < length (joint_names msg)"
      by (simp add: angle_out_of_range_def)
    with assms(1) have "position_accepted reg msg i j" by blast
    with a show False
      by (auto simp: position_accepted_def angle_out_of_range_def split: option.splits)
  qed
qed

lemma callback_cases:
  assumes "joint_command_callback reg msg = Inr out"
  shows "(published out = None \<and> (\<exists>e. logged out = [e] \<and> error_justified reg msg e))
         \<or> (\<exists>cmds. published out = Some cmds \<and> logged out = []
               \<and> length cmds = length (points msg) * length (joint_names msg)
               \<and> (\<forall>i' j'. i' < length (points msg) \<and> j' < length (joint_names msg)
                     \<longrightarrow> position_accepted reg msg i' j'))"
proof -
  from assms obtain st where
    st: "outer_loop reg msg 0 \<lparr>commands = [], invalid = False, errors = []\<rparr> = Inr st"
    and pub: "published out = (if \<not> invalid st then Some (commands st) else None)"
    and lg: "logged out = errors st"
    and inv: "cb_inv reg msg st"
    by (rule callback_Inr)
  show ?thesis
  proof (cases "invalid st")
    case True
    with pub lg inv show ?thesis by (simp add: cb_inv_def)
  next
    case False
    note acc = outer_loop_accepts [OF st False]
    from acc have "\<forall>i' j'. 0 \<le> i' \<and> i' < length (points msg) \<and> j' < length (joint_names msg)
               \<longrightarrow> position_accepted reg msg i' j'"
      by (rule conjunct2 [THEN conjunct1])
    then have all: "\<forall>i' j'. i' < length (points msg) \<and> j' < length (joint_names msg)
               \<longrightarrow> position_accepted reg msg i' j'" by simp
    from acc have "length (commands st) = length (points msg) * length (joint_names msg)"
      by simp
    with all False pub lg inv show ?thesis by (simp add: cb_inv_def)
  qed
qed

lemma example_callback:
  "joint_command_callback example_joints example_msg
     = Inr \<lparr>published = Some [\<lparr>cmd_channel = 3, pw = 1500, speed = 2000 / pi\<rparr>,
                              \<lparr>cmd_channel = 1, pw = 500, speed = 0\<rparr>,
                              \<lparr>cmd_channel = 3, pw = 1500, speed = 0\<rparr>,
                              \<lparr>cmd_channel = 1, pw = 1500, speed = 0\<rparr>],
            logged = []\<rparr>"
  by (simp add: joint_command_callback_def example_joints_def example_msg_def
        outer_loop.simps inner_loop.simps loop_body_def joint_J_fields joint_W_fields
        raw_joint_J_0 raw_joint_W_0 raw_joint_W_pi pi_in_W
        unsigned_to_int_def clamp_pulse_width_def invert_pulse_width_def
        ServoCommand_default_def scale_def Let_def)

lemma two_points_callback:
  "joint_command_callback [(''J'', joint_J)] msg_two_points
     = Inr \<lparr>published = None, logged = [InvalidPosition 2 ''J'']\<rparr>"
  by (simp add: joint_command_callback_def msg_two_points_def
        outer_loop.simps inner_loop.simps loop_body_def joint_J_fields
        raw_joint_J_0 unsigned_to_int_def clamp_pulse_width_def
        ServoCommand_default_def Let_def)

subsection \<open>Published pulse widths\<close>

text \<open>
  Claim C1. Every command of a published batch has a pulse width in
  \<open>[500, 2500]\<close>: the command belongs to a position of the message whose joint
  is registered, its pulse width is the clamped raw value, and the inversion
  \<open>3000 - pw\<close> is applied after the clamp, exactly when the joint is inverted.
\<close>

theorem published_pulse_width_in_range:
  assumes "joint_command_callback reg msg = Inr out"
    and "published out = Some cmds"
    and "c \<in> set cmds"
  shows "500 \<le> pw c \<and> pw c \<le> 2500
         \<and> (\<exists>i < length (points msg). \<exists>j < length (joint_names msg). \<exists>joint u.
               map_of reg (joint_names msg ! j) = Some joint
               \<and> raw_pulse_width joint (positions (points msg ! i) ! j) = Some u
               \<and> cmd_channel c = channel joint
               \<and> pw c = (if invert joint
                         then invert_pulse_width (clamp_pulse_width (unsigned_to_int u))
                         else clamp_pulse_width (unsigned_to_int u)))"
proof -
  from assms(1) obtain st where
    pub: "published out = (if \<not> invalid st then Some (commands st) else None)"
    and inv: "cb_inv reg msg st"
    by (rule callback_Inr)
  from pub assms(2) have v: "\<not> invalid st" and cmds: "cmds = commands st"
    by (auto split: if_splits)
  from inv v cmds assms(3) have "command_in_msg reg msg c"
    by (auto simp: cb_inv_def list_all_iff)
  then obtain i j where i: "i < length (points msg)" and j: "j < length (joint_names msg)"
    and cf: "command_for reg msg i j c"
    unfolding command_in_msg_def by blast
  from command_for_range [OF cf] have "500 \<le> pw c \<and> pw c \<le> 2500" .
  moreover from cf i j have "\<exists>i < length (points msg). \<exists>j < length (joint_names msg). \<exists>joint u.
               map_of reg (joint_names msg ! j) = Some joint
               \<and> raw_pulse_width joint (positions (points msg ! i) ! j) = Some u
               \<and> cmd_channel c = channel joint
               \<and> pw c = (if invert joint
                         then invert_pulse_width (clamp_pulse_width (unsigned_to_int u))
                         else clamp_pulse_width (unsigned_to_int u))"
    unfolding command_for_def by blast
  ultimately show ?thesis by blast
qed

theorem published_pulse_width_in_range_witness:
  "joint_command_callback example_joints example_msg
     = Inr \<lparr>published = Some [\<lparr>cmd_channel = 3, pw = 1500, speed = 2000 / pi\<rparr>,
                              \<lparr>cmd_channel = 1, pw = 500, speed = 0\<rparr>,
                              \<lparr>cmd_channel = 3, pw = 1500, speed = 0\<rparr>,
                              \<lparr>cmd_channel = 1, pw = 1500, speed = 0\<rparr>],
            logged = []\<rparr>
   \<and> 500 \<le> pw \<lparr>cmd_channel = 1, pw = 500, speed = 0\<rparr>
   \<and> pw \<lparr>cmd_channel = 1, pw = 500, speed = 0\<rparr> \<le> 2500"
  using published_pulse_width_in_range [OF example_callback, of _ "\<lparr>cmd_channel = 1, pw = 500, speed = 0\<rparr>"]
    example_callback
  by simp

subsection \<open>Validation errors\<close>

text \<open>
  Claim C2, amended. Take a message with at least one trajectory point that
  names an unregistered joint, or that has a position outside the inclusive
  range of its joint. Whenever the callback returns, nothing is published and
  exactly one error is logged, which stands for a defect of the message. At a
  position out of range the loop body logs the error and pushes a
  default-constructed command; the raw pulse width is not evaluated, so the
  result is the same where the conversion would be undefined.
\<close>

theorem invalid_input_not_published:
  assumes "points msg \<noteq> []"
    and "unknown_joint reg msg \<or> angle_out_of_range reg msg i j"
  shows "(\<forall>out. joint_command_callback reg msg = Inr out
            \<longrightarrow> published out = None \<and> (\<exists>e. logged out = [e] \<and> error_justified reg msg e))
         \<and> (\<forall>joint st. map_of reg (joint_names msg ! j) = Some joint
               \<and> angle_out_of_range reg msg i j
             \<longrightarrow> loop_body reg msg i j st
                 = Inr (st\<lparr>commands := commands st @ [ServoCommand_default], invalid := True,
                          errors := errors st @ [InvalidPosition (positions (points msg ! i) ! j)
                                                   (name joint)]\<rparr>))"
proof (rule conjI)
  show "\<forall>out. joint_command_callback reg msg = Inr out
            \<longrightarrow> published out = None \<and> (\<exists>e. logged out = [e] \<and> error_justified reg msg e)"
  proof (rule allI, rule impI)
    fix out assume "joint_command_callback reg msg = Inr out"
    from callback_cases [OF this]
    show "published out = None \<and> (\<exists>e. logged out = [e] \<and> error_justified reg msg e)"
    proof
      assume "published out = None \<and> (\<exists>e. logged out = [e] \<and> error_justified reg msg e)"
      then show ?thesis .
    next
      assume "\<exists>cmds. published out = Some cmds \<and> logged out = []
                 \<and> length cmds = length (points msg) * length (joint_names msg)
                 \<and> (\<forall>i' j'. i' < length (points msg) \<and> j' < length (joint_names msg)
                       \<longrightarrow> position_accepted reg msg i' j')"
      then have all: "\<forall>i' j'. i' < length (points msg) \<and> j' < length (joint_names msg)
                       \<longrightarrow> position_accepted reg msg i' j'" by blast
      from accepted_excludes(1) [OF all assms(1)] accepted_excludes(2) [OF all assms(1)] assms(2)
      show ?thesis by blast
    qed
  qed
next
  show "\<forall>joint st. map_of reg (joint_names msg ! j) = Some joint
               \<and> angle_out_of_range reg msg i j
             \<longrightarrow> loop_body reg msg i j st
                 = Inr (st\<lparr>commands := commands st @ [ServoCommand_default], invalid := True,
                          errors := errors st @ [InvalidPosition (positions (points msg ! i) ! j)
                                                   (name joint)]\<rparr>)"
    by (auto simp: loop_body_def angle_out_of_range_def Let_def)
qed

theorem invalid_input_not_published_witness:
  "points msg_two_points \<noteq> []
   \<and> angle_out_of_range [(''J'', joint_J)] msg_two_points 1 0
   \<and> joint_command_callback [(''J'', joint_J)] msg_two_points
       = Inr \<lparr>published = None, logged = [InvalidPosition 2 ''J'']\<rparr>
   \<and> loop_body [(''J'', joint_J)] msg_two_points 1 0 \<lparr>commands = [], invalid = False, errors = []\<rparr>
       = Inr \<lparr>commands = [ServoCommand_default], invalid = True,
              errors = [InvalidPosition 2 ''J'']\<rparr>"
  using invalid_input_not_published [of msg_two_points "[(''J'', joint_J)]" 1 0]
    two_points_callback
  by (simp add: msg_two_points_def angle_out_of_range_def joint_J_fields)

text \<open>
  The claim C2 as stated, for every message that names an unregistered joint,
  fails: a message without points runs no iteration, so an empty batch is
  published and nothing is logged.
\<close>

theorem invalid_input_not_published_counterexample:
  "unknown_joint [] msg_no_points
   \<and> joint_command_callback [] msg_no_points = Inr \<lparr>published = Some [], logged = []\<rparr>"
  by (simp add: unknown_joint_def msg_no_points_def joint_command_callback_def outer_loop.simps)

subsection \<open>One batch per message\<close>

text \<open>
  Claim C3, amended. The callback collects the commands of all points in one
  batch and publishes all or nothing. Whenever it returns, either nothing is
  published and exactly one error is logged, or one batch is published that
  holds a command for every joint name of every point, nothing is logged and
  every position was accepted. An error at a point therefore withholds the
  commands of the points before it too.
\<close>

theorem single_batch_all_or_nothing:
  assumes "joint_command_callback reg msg = Inr out"
  shows "(case published out of
            None \<Rightarrow> (\<exists>e. logged out = [e] \<and> error_justified reg msg e)
          | Some cmds \<Rightarrow>
              logged out = []
              \<and> length cmds = length (points msg) * length (joint_names msg)
              \<and> (\<forall>i < length (points msg). \<forall>j < length (joint_names msg).
                    position_accepted reg msg i j))"
  using callback_cases [OF assms] by (auto split: option.splits)

theorem single_batch_all_or_nothing_witness:
  "joint_command_callback example_joints example_msg
     = Inr \<lparr>published = Some [\<lparr>cmd_channel = 3, pw = 1500, speed = 2000 / pi\<rparr>,
                              \<lparr>cmd_channel = 1, pw = 500, speed = 0\<rparr>,
                              \<lparr>cmd_channel = 3, pw = 1500, speed = 0\<rparr>,
                              \<lparr>cmd_channel = 1, pw = 1500, speed = 0\<rparr>],
            logged = []\<rparr>
   \<and> length (points example_msg) * length (joint_names example_msg) = 4
   \<and> position_accepted example_joints example_msg 0 1"
  using single_batch_all_or_nothing [OF example_callback] example_callback
  by (simp add: example_msg_def)

text \<open>
  The claim C3 as stated fails: in a message of two points, the first one valid
  and the second one out of range, nothing is published, the command of the
  first point included.
\<close>

theorem single_batch_all_or_nothing_counterexample:
  "position_accepted [(''J'', joint_J)] msg_two_points 0 0
   \<and> angle_out_of_range [(''J'', joint_J)] msg_two_points 1 0
   \<and> joint_command_callback [(''J'', joint_J)] msg_two_points
       = Inr \<lparr>published = None, logged = [InvalidPosition 2 ''J'']\<rparr>"
  using two_points_callback
  by (simp add: position_accepted_def angle_out_of_range_def msg_two_points_def joint_J_fields)

subsection \<open>Unchecked positions\<close>

text \<open>
  Claim C10. \<^verbatim>\<open>positions[j]\<close> is read without a check of the length, unlike
  \<^verbatim>\<open>velocities[j]\<close>. If every point carries at least as many positions as there
  are joint names, no index leaves its vector: the callback returns, or stops at
  an undefined conversion. A message with one joint name and a point without
  positions reads past the end of the positions.
\<close>

theorem positions_unchecked:
  "((\<forall>pt \<in> set (points msg). length (joint_names msg) \<le> length (positions pt))
      \<longrightarrow> (\<exists>out. joint_command_callback reg msg = Inr out)
          \<or> joint_command_callback reg msg = Inl ConversionUndefined)
   \<and> joint_command_callback [(''J'', joint_J)]
        \<lparr>joint_names = [''J''], points = [\<lparr>positions = [], velocities = []\<rparr>]\<rparr>
       = Inl PositionIndexOutOfRange"
proof (intro conjI impI)
  assume wf: "\<forall>pt \<in> set (points msg). length (joint_names msg) \<le> length (positions pt)"
  show "(\<exists>out. joint_command_callback reg msg = Inr out)
          \<or> joint_command_callback reg msg = Inl ConversionUndefined"
  proof (cases "joint_command_callback reg msg")
    case (Inr out)
    then show ?thesis by blast
  next
    case (Inl f)
    have "\<not> (\<exists>i < length (points msg). \<exists>j < length (joint_names msg).
                \<not> j < length (positions (points msg ! i)))"
    proof
      assume "\<exists>i < length (points msg). \<exists>j < length (joint_names msg).
                \<not> j < length (positions (points msg ! i))"
      then obtain i j where i: "i < length (points msg)" and j: "j < length (joint_names msg)"
        and n: "\<not> j < length (positions (points msg ! i))" by blast
      from i have "points msg ! i \<in> set (points msg)" by simp
      with wf have "length (joint_names msg) \<le> length (positions (points msg ! i))" by blast
      with j n show False by simp
    qed
    with callback_Inl [OF Inl] have "f = ConversionUndefined" by blast
    with Inl show ?thesis by simp
  qed
next
  show "joint_command_callback [(''J'', joint_J)]
        \<lparr>joint_names = [''J''], points = [\<lparr>positions = [], velocities = []\<rparr>]\<rparr>
       = Inl PositionIndexOutOfRange"
    by (simp add: joint_command_callback_def joint_J_def outer_loop.simps
        inner_loop.simps loop_body_def)
qed

theorem positions_unchecked_witness:
  "list_all (\<lambda>pt. length (joint_names example_msg) \<le> length (positions pt))
     (points example_msg)
   \<and> (\<exists>out. joint_command_callback example_joints example_msg = Inr out)"
  using positions_unchecked [of example_msg example_joints] example_callback
  by (simp add: example_msg_def)

section \<open>Properties of the narrowing to \<^verbatim>\<open>unsigned int\<close>\<close>

text \<open>
  With the cast of the language the parametrised translation is the translation
  itself, and every run that completes is the same when the cast wraps around.
\<close>

lemma loop_body_with_to_unsigned_int:
  "loop_body_with to_unsigned_int reg msg i j st = loop_body reg msg i j st"
  unfolding loop_body_with_def loop_body_def raw_pulse_width_def by (rule refl)

lemma inner_loop_with_to_unsigned_int:
  "inner_loop_with to_unsigned_int reg msg i j st = inner_loop reg msg i j st"
proof (induction reg msg i j st rule: inner_loop.induct)
  case (1 reg msg i j st)
  show ?case
  proof (cases "j < length (joint_names msg) \<and> \<not> invalid st")
    case True
    show ?thesis
    proof (cases "loop_body reg msg i j st")
      case (Inl f)
      with True show ?thesis
        by (simp add: inner_loop.simps [of reg msg i j st]
              inner_loop_with.simps [of to_unsigned_int reg msg i j st]
              loop_body_with_to_unsigned_int)
    next
      case (Inr st1)
      with True "1.IH" [OF True Inr] show ?thesis
        by (simp add: inner_loop.simps [of reg msg i j st]
              inner_loop_with.simps [of to_unsigned_int reg msg i j st]
              loop_body_with_to_unsigned_int)
    qed
  next
    case False
    then show ?thesis
      by (auto simp: inner_loop.simps [of reg msg i j st]
            inner_loop_with.simps [of to_unsigned_int reg msg i j st])
  qed
qed

lemma outer_loop_with_to_unsigned_int:
  "outer_loop_with to_unsigned_int reg msg i st = outer_loop reg msg i st"
proof (induction reg msg i st rule: outer_loop.induct)
  case (1 reg msg i st)
  show ?case
  proof (cases "i < length (points msg)")
    case True
    show ?thesis
    proof (cases "inner_loop reg msg i 0 st")
      case (Inl f)
      with True show ?thesis
        by (simp add: outer_loop.simps [of reg msg i st]
              outer_loop_with.simps [of to_unsigned_int reg msg i st]
              inner_loop_with_to_unsigned_int)
    next
      case (Inr st1)
      with True "1.IH" [OF True Inr] show ?thesis
        by (simp add: outer_loop.simps [of reg msg i st]
              outer_loop_with.simps [of to_unsigned_int reg msg i st]
              inner_loop_with_to_unsigned_int)
    qed
  next
    case False
    then show ?thesis
      by (auto simp: outer_loop.simps [of reg msg i st]
            outer_loop_with.simps [of to_unsigned_int reg msg i st])
  qed
qed

lemma joint_command_callback_with_to_unsigned_int:
  "joint_command_callback_with to_unsigned_int reg msg = joint_command_callback reg msg"
  by (simp add: joint_command_callback_with_def joint_command_callback_def
        outer_loop_with_to_unsigned_int)

lemma wrapping_extends:
  assumes "to_unsigned_int x = Some u"
  shows "wrapping_cast x = Some u"
proof -
  from to_unsigned_int_Some [OF assms]
  have r: "0 \<le> u" "u < 4294967296" and v: "(0 \<le> x \<and> u = \<lfloor>x\<rfloor>) \<or> (x < 0 \<and> u = 0)"
    by simp_all
  from v have "(if x < 0 then \<lceil>x\<rceil> else \<lfloor>x\<rfloor>) = u"
  proof
    assume "0 \<le> x \<and> u = \<lfloor>x\<rfloor>" then show ?thesis by simp
  next
    assume n: "x < 0 \<and> u = 0"
    with assms to_unsigned_int_negative [of x] have "- 1 < x" by (simp split: if_splits)
    with n have "\<lceil>x\<rceil> = 0" by (simp add: ceiling_eq_iff)
    with n show ?thesis by simp
  qed
  with r show ?thesis
    by (simp add: wrapping_cast_def wrapping_unsigned_int_def)
qed

lemma loop_body_wrapping_extends:
  assumes "loop_body reg msg i j st = Inr st'"
  shows "loop_body_with wrapping_cast reg msg i j st = Inr st'"
proof (cases "map_of reg (joint_names msg ! j)")
  case None
  with assms show ?thesis
    by (simp add: loop_body_def loop_body_with_def)
next
  case (Some joint)
  show ?thesis
  proof (cases "raw_pulse_width joint (positions (points msg ! i) ! j)")
    case None
    with Some assms show ?thesis
      by (auto simp: loop_body_def loop_body_with_def Let_def split: if_splits)
  next
    case (Some u)
    then have "wrapping_cast (scale * (positions (points msg ! i) ! j - offset_angle joint)
                 + 1500 + 0.5) = Some u"
      unfolding raw_pulse_width_def by (rule wrapping_extends)
    with Some \<open>map_of reg (joint_names msg ! j) = Some joint\<close> assms show ?thesis
      by (auto simp: loop_body_def loop_body_with_def Let_def split: if_splits)
  qed
qed

lemma inner_loop_wrapping_extends:
  "inner_loop reg msg i j st = Inr st' \<Longrightarrow> inner_loop_with wrapping_cast reg msg i j st = Inr st'"
proof (induction reg msg i j st rule: inner_loop.induct)
  case (1 reg msg i j st)
  show ?case
  proof (cases "j < length (joint_names msg) \<and> \<not> invalid st")
    case True
    with "1.prems" obtain st1 where
      b: "loop_body reg msg i j st = Inr st1" and
      r: "inner_loop reg msg i (j + 1) st1 = Inr st'"
      by (auto simp: inner_loop.simps [of reg msg i j st] split: sum.splits)
    from "1.IH" [OF True b r] loop_body_wrapping_extends [OF b] True show ?thesis
      by (simp add: inner_loop_with.simps [of wrapping_cast reg msg i j st])
  next
    case False
    with "1.prems" have "st' = st"
      by (auto simp: inner_loop.simps [of reg msg i j st])
    with False show ?thesis
      by (auto simp: inner_loop_with.simps [of wrapping_cast reg msg i j st])
  qed
qed

lemma outer_loop_wrapping_extends:
  "outer_loop reg msg i st = Inr st' \<Longrightarrow> outer_loop_with wrapping_cast reg msg i st = Inr st'"
proof (induction reg msg i st rule: outer_loop.induct)
  case (1 reg msg i st)
  show ?case
  proof (cases "i < length (points msg)")
    case True
    with "1.prems" obtain st1 where
      b: "inner_loop reg msg i 0 st = Inr st1" and
      r: "outer_loop reg msg (i + 1) st1 = Inr st'"
      by (auto simp: outer_loop.simps [of reg msg i st] split: sum.splits)
    from "1.IH" [OF True b r] inner_loop_wrapping_extends [OF b] True show ?thesis
      by (simp add: outer_loop_with.simps [of wrapping_cast reg msg i st])
  next
    case False
    with "1.prems" have "st' = st"
      by (auto simp: outer_loop.simps [of reg msg i st])
    with False show ?thesis
      by (auto simp: outer_loop_with.simps [of wrapping_cast reg msg i st])
  qed
qed

lemma callback_wrapping_extends:
  assumes "joint_command_callback reg msg = Inr out"
  shows "joint_command_callback_with wrapping_cast reg msg = Inr out"
proof -
  from assms obtain st where
    st: "outer_loop reg msg 0 \<lparr>commands = [], invalid = False, errors = []\<rparr> = Inr st"
    and out: "out = \<lparr>published = (if \<not> invalid st then Some (commands st) else None),
                     logged = errors st\<rparr>"
    by (auto simp: joint_command_callback_def split: sum.splits)
  from outer_loop_wrapping_extends [OF st] out show ?thesis
    by (simp add: joint_command_callback_with_def)
qed







section \<open>Properties of \<^verbatim>\<open>relax_joints\<close>\<close>

text \<open>
  Claim C8. For a map of \<open>N\<close> joints, \<^verbatim>\<open>relax_joints\<close> publishes exactly \<open>N\<close>
  discrete-output messages, the \<open>n\<close>-th one carrying the channel of the \<open>n\<close>-th
  joint and the output level 0 (low, off). The messages depend on the channels
  of the joints only: no angle and no pulse width enters them.
\<close>

theorem relax_joints_one_per_joint:
  "length (relax_joints reg) = length reg
   \<and> (\<forall>n < length reg.
        relax_joints reg ! n = \<lparr>out_channel = channel (snd (reg ! n)), out_output = 0\<rparr>)
   \<and> (\<forall>reg'. query_channels reg' = query_channels reg \<longrightarrow> relax_joints reg' = relax_joints reg)"
proof (intro conjI allI impI)
  show "length (relax_joints reg) = length reg"
    by (simp add: relax_joints_def)
next
  fix n assume "n < length reg"
  then show "relax_joints reg ! n = \<lparr>out_channel = channel (snd (reg ! n)), out_output = 0\<rparr>"
    by (simp add: relax_joints_def split: prod.split)
next
  fix reg' :: joints_map
  assume h: "query_channels reg' = query_channels reg"
  have eq: "relax_joints r = map (\<lambda>c. \<lparr>out_channel = c, out_output = 0\<rparr>) (query_channels r)" for r
    by (simp add: relax_joints_def query_channels_def case_prod_beta comp_def)
  show "relax_joints reg' = relax_joints reg"
    by (simp only: eq h)
qed

theorem relax_joints_one_per_joint_witness:
  "relax_joints [(''J'', joint_J), (''K'', joint_K)]
     = [\<lparr>out_channel = 3, out_output = 0\<rparr>, \<lparr>out_channel = 5, out_output = 0\<rparr>]
   \<and> (1::nat) < length [(''J'', joint_J), (''K'', joint_K)]
   \<and> query_channels [(''J'', joint_J\<lparr>channel := 5, offset_angle := 1\<rparr>)]
       = query_channels [(''K'', joint_K)]
   \<and> relax_joints [(''J'', joint_J\<lparr>channel := 5, offset_angle := 1\<rparr>)]
       = relax_joints [(''K'', joint_K)]"
  using relax_joints_one_per_joint [of "[(''J'', joint_J), (''K'', joint_K)]"]
    relax_joints_one_per_joint [of "[(''K'', joint_K)]"]
  by (simp add: relax_joints_def query_channels_def joint_J_def joint_K_def)

section \<open>Properties of the state translation\<close>

lemma readings_step:
  assumes "i < length joint_list" "i < length pulse_width"
  shows "readings joint_list pulse_width i
           = (if pulse_width ! i > 0 then [(joint_list ! i, pulse_width ! i)] else [])
             @ readings joint_list pulse_width (i + 1)"
proof -
  from assms have "i < length (zip joint_list pulse_width)" by simp
  then have "drop i (zip joint_list pulse_width)
               = (zip joint_list pulse_width) ! i # drop (Suc i) (zip joint_list pulse_width)"
    by (rule Cons_nth_drop_Suc [symmetric])
  with assms show ?thesis by (simp add: readings_def)
qed

lemma state_loop_eq:
  "state_loop joint_list pulse_width i m =
     (if length joint_list \<le> max i (length pulse_width) then
        Inr (m\<lparr>state_position := state_position m
                   @ map reading_angle (readings joint_list pulse_width i),
               state_name := state_name m
                   @ map (\<lambda>(joint, p). name joint) (readings joint_list pulse_width i)\<rparr>)
      else Inl PulseWidthIndexOutOfRange)"
proof (induction joint_list pulse_width i m rule: state_loop.induct)
  case (1 joint_list pulse_width i m)
  show ?case
  proof (cases "i < length joint_list")
    case False
    then have "readings joint_list pulse_width i = []"
      by (simp add: readings_def)
    with False show ?thesis
      by (simp add: state_loop.simps [of joint_list pulse_width i m])
  next
    case True
    show ?thesis
    proof (cases "i < length pulse_width")
      case False
      with True show ?thesis
        by (simp add: state_loop.simps [of joint_list pulse_width i m])
    next
      case inb: True
      from True inb have m: "max (i + 1) (length pulse_width) = max i (length pulse_width)"
        by simp
      note step = readings_step [OF True inb]
      show ?thesis
      proof (cases "pulse_width ! i > 0")
        case pos: True
        from "1.IH"(1) [OF True inb refl pos refl refl] True inb pos step m show ?thesis
          by (simp add: state_loop.simps [of joint_list pulse_width i m] Let_def
                reading_angle_def pw_to_angle_def invert_pulse_width_def)
      next
        case neg: False
        from "1.IH"(2) [OF True inb refl neg] True inb neg step m show ?thesis
          by (simp add: state_loop.simps [of joint_list pulse_width i m] Let_def)
      qed
    qed
  qed
qed

text \<open>
  Claim C6. With a pulse width for every joint, the response callback returns
  the joint state built from the readings above 0, in order: for each of them
  the inversion is undone if the joint is inverted, the angle is
  \<open>(pw - 1500) / scale + offset_angle\<close>, and the name of the joint is appended
  next to it. Readings of 0 or below are left out, so the state is at most as
  long as the list of joints. (With fewer pulse widths than joints the loop
  reads past the end of the pulse widths.) In particular the pulse width 500
  of a joint without offset that is not inverted gives the angle \<open>- pi / 2\<close>.
\<close>

theorem state_translation:
  "response_received_callback joint_list pulse_width =
     (if length joint_list \<le> length pulse_width then
        Inr \<lparr>state_position =
               map (\<lambda>(joint, p).
                      (real_of_int (if invert joint then 3000 - p else p) - 1500) / (2000 / pi)
                        + offset_angle joint)
                 (filter (\<lambda>(joint, p). p > 0) (zip joint_list pulse_width)),
             state_name =
               map (\<lambda>(joint, p). name joint)
                 (filter (\<lambda>(joint, p). p > 0) (zip joint_list pulse_width))\<rparr>
      else Inl PulseWidthIndexOutOfRange)
   \<and> length (filter (\<lambda>(joint, p). p > 0) (zip joint_list pulse_width)) \<le> length joint_list
   \<and> response_received_callback [joint_J] [500]
       = Inr \<lparr>state_position = [- pi / 2], state_name = [''J'']\<rparr>"
proof (intro conjI)
  show "response_received_callback joint_list pulse_width =
     (if length joint_list \<le> length pulse_width then
        Inr \<lparr>state_position =
               map (\<lambda>(joint, p).
                      (real_of_int (if invert joint then 3000 - p else p) - 1500) / (2000 / pi)
                        + offset_angle joint)
                 (filter (\<lambda>(joint, p). p > 0) (zip joint_list pulse_width)),
             state_name =
               map (\<lambda>(joint, p). name joint)
                 (filter (\<lambda>(joint, p). p > 0) (zip joint_list pulse_width))\<rparr>
      else Inl PulseWidthIndexOutOfRange)"
    by (simp add: response_received_callback_def state_loop_eq readings_def reading_angle_def
          scale_def)
next
  have "length (filter (\<lambda>(joint, p). p > 0) (zip joint_list pulse_width))
          \<le> length (zip joint_list pulse_width)"
    by (rule length_filter_le)
  then show "length (filter (\<lambda>(joint, p). p > 0) (zip joint_list pulse_width))
               \<le> length joint_list"
    by simp
next
  show "response_received_callback [joint_J] [500]
       = Inr \<lparr>state_position = [- pi / 2], state_name = [''J'']\<rparr>"
    by (simp add: response_received_callback_def state_loop_eq readings_def reading_angle_def
          scale_def joint_J_def)
qed

theorem state_translation_witness:
  "length [joint_J, joint_K, joint_J] \<le> length [700, 700, 0 :: int]
   \<and> response_received_callback [joint_J, joint_K, joint_J] [700, 700, 0]
       = Inr \<lparr>state_position = [- (2 * pi / 5), 2 * pi / 5], state_name = [''J'', ''K'']\<rparr>
   \<and> response_received_callback [joint_J, joint_K] [700] = Inl PulseWidthIndexOutOfRange"
  using state_translation [of "[joint_J, joint_K, joint_J]" "[700, 700, 0]"]
    state_translation [of "[joint_J, joint_K]" "[700]"]
  by (simp add: joint_J_def joint_K_def)

end
